theory Spec2Isabelle
  imports Main "HOL-Library.Multiset"
begin

section \<open>CAA issuer discovery (certbot/\_internal/auto\_server.py)\<close>

text \<open>
  A shallow embedding of \<^verbatim>\<open>auto_server.py\<close>: the CAA value parser
  \<^verbatim>\<open>CAAIssue.parse\<close>, the issuer discovery \<^verbatim>\<open>auto_discover_server\<close>
  and the directory URL mapper \<^verbatim>\<open>issuer_to_directory\<close>.
  Python \<^verbatim>\<open>bytes\<close> are lists of 8-bit characters. What the module calls but does
  not define (the DNS library and resolver, the iteration order of a built-in set, the
  interpreter's limit on integer literals) is a field of the environment record below.
\<close>

subsection \<open>Built-in operations on bytes\<close>

type_synonym bytes = "char list"

text \<open>The bytes that \<^verbatim>\<open>bytes.strip()\<close> and \<^verbatim>\<open>int()\<close> treat as whitespace:
  space, tab, line feed, vertical tab, form feed, carriage return.\<close>

definition is_space :: "char \<Rightarrow> bool" where
  "is_space c = (c = CHR 0x20 \<or> c = CHR 0x09 \<or> c = CHR 0x0A \<or> c = CHR 0x0B \<or> c = CHR 0x0C \<or> c = CHR 0x0D)"

text \<open>\<^verbatim>\<open>b.strip()\<close>: whitespace removed at both ends.\<close>

definition strip :: "bytes \<Rightarrow> bytes" where
  "strip b = rev (dropWhile is_space (rev (dropWhile is_space b)))"

text \<open>\<^verbatim>\<open>b.split(sep)\<close> and \<^verbatim>\<open>b.split(sep, maxsplit)\<close> for a separator of one byte:
  a left-to-right scan that cuts at each separator while cuts remain (\<open>None\<close>: no limit).
  The result always has a first segment.\<close>

fun split :: "char \<Rightarrow> nat option \<Rightarrow> bytes \<Rightarrow> bytes \<times> bytes list" where
  "split sep maxsplit [] = ([], [])"
| "split sep maxsplit (c # cs) =
     (if c = sep \<and> maxsplit \<noteq> Some 0
      then ([], (case split sep (map_option (\<lambda>n. n - 1) maxsplit) cs of (seg, segs) \<Rightarrow> seg # segs))
      else (case split sep maxsplit cs of (seg, segs) \<Rightarrow> (c # seg, segs)))"

definition bytes_split :: "char \<Rightarrow> nat option \<Rightarrow> bytes \<Rightarrow> bytes list" where
  "bytes_split sep maxsplit b = (case split sep maxsplit b of (seg, segs) \<Rightarrow> seg # segs)"

subsection \<open>CAAIssue\<close>

text \<open>Exceptions of the interpreter that a step of the module can raise.\<close>

datatype py_exception = ValueError | IndexError | UnicodeDecodeError

text \<open>\<^verbatim>\<open>parameters: Dict[bytes, Optional[bytes]]\<close>: a key maps to \<open>None\<close> (the Python
  \<^verbatim>\<open>None\<close>) or to \<open>Some v\<close>.\<close>

record CAAIssue =
  issuer :: bytes
  parameters :: "bytes \<rightharpoonup> bytes option"

text \<open>The body of the loop of \<^verbatim>\<open>parse\<close> (lines 22-26): \<^verbatim>\<open>parts[0]\<close> and
  \<^verbatim>\<open>parts[1]\<close> raise IndexError out of range.\<close>

definition parse_parameter ::
    "(bytes \<rightharpoonup> bytes option) \<Rightarrow> bytes \<Rightarrow> py_exception + (bytes \<rightharpoonup> bytes option)" where
  "parse_parameter parameters_out p =
     (case bytes_split CHR ''='' (Some 1) p of
        [] \<Rightarrow> Inl IndexError
      | [k] \<Rightarrow> Inr (parameters_out(strip k \<mapsto> None))
      | k # v # _ \<Rightarrow> Inr (parameters_out(strip k \<mapsto> Some (strip v))))"

fun parse_parameters ::
    "(bytes \<rightharpoonup> bytes option) \<Rightarrow> bytes list \<Rightarrow> py_exception + (bytes \<rightharpoonup> bytes option)" where
  "parse_parameters parameters_out [] = Inr parameters_out"
| "parse_parameters parameters_out (p # ps) =
     (case parse_parameter parameters_out p of
        Inl e \<Rightarrow> Inl e
      | Inr out \<Rightarrow> parse_parameters out ps)"

text \<open>\<^verbatim>\<open>CAAIssue.parse\<close> (lines 17-31). The unpacking
  \<^verbatim>\<open>issuer, *parameters = value.split(b";")\<close> raises ValueError on an empty list.\<close>

definition parse :: "bytes \<Rightarrow> py_exception + CAAIssue" where
  "parse v =
     (case bytes_split CHR '';'' None v of
        [] \<Rightarrow> Inl ValueError
      | issuer_seg # parameter_segs \<Rightarrow>
          (case parse_parameters Map.empty parameter_segs of
             Inl e \<Rightarrow> Inl e
           | Inr parameters_out \<Rightarrow> Inr \<lparr>issuer = strip issuer_seg, parameters = parameters_out\<rparr>))"

text \<open>\<^verbatim>\<open>get_property\<close> (lines 33-37).\<close>

definition get_property :: "CAAIssue \<Rightarrow> bytes \<Rightarrow> bytes option \<Rightarrow> bytes option" where
  "get_property c t dflt = (case parameters c t of Some v \<Rightarrow> v | None \<Rightarrow> dflt)"

subsection \<open>Issuer and the built-in set\<close>

record Issuer =
  issuer :: bytes
  priority :: int

text \<open>\<^verbatim>\<open>Issuer.__eq__\<close> (lines 45-46): the identifiers are compared, the priorities
  are not. \<^verbatim>\<open>__hash__\<close> (lines 48-49) hashes the identifier alone.\<close>

definition Issuer_eq :: "Issuer \<Rightarrow> Issuer \<Rightarrow> bool" where
  "Issuer_eq a b = (Issuer.issuer a = Issuer.issuer b)"

text \<open>
  A Python \<^verbatim>\<open>set\<close> of Issuer objects is the list of its members in the order in which
  they were inserted. \<^verbatim>\<open>add\<close> keeps the member already stored when an equal key
  arrives. \<^verbatim>\<open>s.intersection_update(other)\<close> with a list \<^verbatim>\<open>other\<close> builds a new
  table: CPython walks \<^verbatim>\<open>other\<close> and adds each of its keys that \<^verbatim>\<open>s\<close> contains
  (\<^verbatim>\<open>set_intersection\<close> in \<^verbatim>\<open>Objects/setobject.c\<close>), then swaps the table into
  \<^verbatim>\<open>s\<close>.
\<close>

definition set_contains :: "Issuer list \<Rightarrow> Issuer \<Rightarrow> bool" where
  "set_contains s k = list_ex (\<lambda>m. Issuer_eq m k) s"

definition set_add :: "Issuer list \<Rightarrow> Issuer \<Rightarrow> Issuer list" where
  "set_add s k = (if set_contains s k then s else s @ [k])"

definition set_of_list :: "Issuer list \<Rightarrow> Issuer list" where
  "set_of_list xs = foldl set_add [] xs"

definition intersection_update :: "Issuer list \<Rightarrow> Issuer list \<Rightarrow> Issuer list" where
  "intersection_update s other =
     foldl (\<lambda>result k. if set_contains s k then set_add result k else result) [] other"

subsection \<open>The DNS library\<close>

text \<open>A \<^verbatim>\<open>dns.name.Name\<close> is its tuple of labels; an absolute name ends with the empty
  label, and \<^verbatim>\<open>dns.name.root\<close> has that label alone.\<close>

type_synonym name = "bytes list"

datatype dns_exception = NoParent | DNSException string

definition root :: name where
  "root = [[]]"

definition is_absolute :: "name \<Rightarrow> bool" where
  "is_absolute n = (n \<noteq> [] \<and> last n = [])"

definition is_wild :: "name \<Rightarrow> bool" where
  "is_wild n = (case n of [] \<Rightarrow> False | l # _ \<Rightarrow> l = ''*'')"

definition parent :: "name \<Rightarrow> dns_exception + name" where
  "parent n = (if n = root \<or> n = [] then Inl NoParent else Inr (tl n))"

text \<open>A CAA rdata; the attribute \<^verbatim>\<open>value\<close> is the field \<open>caa_value\<close>.\<close>

record rdata =
  flags :: nat
  tag :: bytes
  caa_value :: bytes

text \<open>
  What the module calls and does not define:
  \<^item> \<open>from_text\<close>: \<^verbatim>\<open>dns.name.from_text\<close>, which raises on a malformed name;
  \<^item> \<open>resolve\<close>: \<^verbatim>\<open>resolver.resolve(name, CAA, raise_on_no_answer=False).rrset\<close>, which
    raises, or is \<^verbatim>\<open>None\<close> (no answer) or a record set;
  \<^item> \<open>processing_order\<close>: the method of that name of the record set;
  \<^item> \<open>set_slot\<close>: where the hash table of a set stores a key, from the identifiers
    inserted so far and the key's identifier; a set is iterated by increasing slot;
  \<^item> \<open>max_str_digits\<close>: the interpreter's limit on the digits \<^verbatim>\<open>int()\<close> converts
    (0: no limit).
\<close>

record env =
  from_text :: "string \<Rightarrow> dns_exception + name"
  resolve :: "name \<Rightarrow> dns_exception + rdata list option"
  processing_order :: "rdata list \<Rightarrow> rdata list"
  set_slot :: "bytes list \<Rightarrow> bytes \<Rightarrow> nat"
  max_str_digits :: nat

text \<open>Iterating a set, and \<^verbatim>\<open>sorted(s, key=lambda i: i.priority)\<close> (a stable sort of
  the sequence the iteration gives).\<close>

definition set_iter :: "env \<Rightarrow> Issuer list \<Rightarrow> Issuer list" where
  "set_iter e s = sort_key (\<lambda>m. set_slot e (map Issuer.issuer s) (Issuer.issuer m)) s"

definition sorted_by_priority :: "Issuer list \<Rightarrow> Issuer list" where
  "sorted_by_priority xs = sort_key priority xs"

subsection \<open>int() on bytes\<close>

definition is_digit :: "char \<Rightarrow> bool" where
  "is_digit c = (48 \<le> (of_char c :: nat) \<and> (of_char c :: nat) \<le> 57)"

definition digit_value :: "char \<Rightarrow> int" where
  "digit_value c = int (of_char c) - 48"

fun double_underscore :: "bytes \<Rightarrow> bool" where
  "double_underscore (a # b # cs) = ((a = CHR ''_'' \<and> b = CHR ''_'') \<or> double_underscore (b # cs))"
| "double_underscore _ = False"

text \<open>
  \<^verbatim>\<open>int(b)\<close> in base 10 (\<^verbatim>\<open>PyLong_FromString\<close>): whitespace, an optional sign, then
  digits in groups separated by single underscores, then whitespace up to the end of the
  bytes. \<open>None\<close> is ValueError, which the interpreter also raises when the digits are
  more than its limit (a limit applies above 640 digits only).
\<close>

definition py_int :: "nat \<Rightarrow> bytes \<Rightarrow> int option" where
  "py_int limit b =
     (let s = dropWhile is_space b;
          negative = (s \<noteq> [] \<and> hd s = CHR ''-'');
          signed = (s \<noteq> [] \<and> (hd s = CHR ''+'' \<or> hd s = CHR ''-''));
          s1 = (if signed then tl s else s);
          body = takeWhile (\<lambda>c. is_digit c \<or> c = CHR ''_'') s1;
          rest = dropWhile (\<lambda>c. is_digit c \<or> c = CHR ''_'') s1;
          digits = filter is_digit body
      in if body = [] \<or> hd body = CHR ''_'' \<or> last body = CHR ''_'' \<or> double_underscore body
            \<or> dropWhile is_space rest \<noteq> []
         then None
         else if 640 < length digits \<and> 0 < limit \<and> limit < length digits then None
         else Some ((if negative then - 1 else 1) * foldl (\<lambda>a c. 10 * a + digit_value c) 0 digits))"

subsection \<open>auto\_discover\_server\<close>

text \<open>
  Every \<^verbatim>\<open>raise errors.Error(...)\<close> of the module, by its message:
  \<^item> \<open>DomainParseError\<close>: ``Failed to parse domain'' (line 63);
  \<^item> \<open>DNSResolutionError\<close>: ``Failed to resolve CAA record for'' (line 81);
  \<^item> \<open>NoCAARecordsError\<close>: ``No CAA records found for'' (lines 84, 105, 110);
  \<^item> \<open>InvalidPriorityError\<close>: ``Invalid priority for'' (line 124 with the bytes that
    \<^verbatim>\<open>int()\<close> refused, line 127 with the integer below 1);
  \<^item> \<open>NoCommonIssuersError\<close>: ``No common issuers found'' (line 141);
  \<^item> \<open>InvalidIssuerEncodingError\<close>: ``Invalid issuer'' (line 155).
  The last two constructors are the exceptions no handler of the module catches.
\<close>

datatype error =
    DomainParseError string dns_exception
  | DNSResolutionError name dns_exception
  | NoCAARecordsError name
  | InvalidPriorityError name "bytes + int"
  | NoCommonIssuersError
  | InvalidIssuerEncodingError bytes
  | UncaughtPy py_exception
  | UncaughtDNS dns_exception

text \<open>The truth value of \<^verbatim>\<open>rr\<close> (lines 76 and 83): \<^verbatim>\<open>None\<close> and the empty record set
  are false.\<close>

definition truthy :: "rdata list option \<Rightarrow> bool" where
  "truthy rr = (case rr of None \<Rightarrow> False | Some rs \<Rightarrow> rs \<noteq> [])"

text \<open>The tree walk, lines 70-81: the \<^verbatim>\<open>while\<close> loop entered with the name \<open>n\<close> and
  with \<open>rr\<close> as the value of the variable \<^verbatim>\<open>rr\<close>. An exception of the lookup or of
  \<^verbatim>\<open>parent()\<close> is caught at line 80. The result is the names queried, in order, and
  the error raised or the value of \<^verbatim>\<open>rr\<close> after the loop.\<close>

function walk :: "env \<Rightarrow> name \<Rightarrow> rdata list option \<Rightarrow> name list \<times> (error + rdata list option)" where
  "walk e n rr =
     (if n \<noteq> root then
        (case resolve e n of
           Inl ex \<Rightarrow> ([n], Inl (DNSResolutionError n ex))
         | Inr answer \<Rightarrow>
             if truthy answer then ([n], Inr answer)
             else (case parent n of
                     Inl ex \<Rightarrow> ([n], Inl (DNSResolutionError n ex))
                   | Inr p \<Rightarrow> (case walk e p answer of (qs, r) \<Rightarrow> (n # qs, r))))
      else ([], Inr rr))"
  by pat_completeness auto
termination
  by (relation "measure (\<lambda>(e, n, rr). length n)") (auto simp: parent_def split: if_splits)

declare walk.simps [simp del]

text \<open>Lines 87-98: \<^verbatim>\<open>list(map(lambda r: CAAIssue.parse(r.value), ...))\<close>.\<close>

fun parse_all :: "bytes list \<Rightarrow> py_exception + CAAIssue list" where
  "parse_all [] = Inr []"
| "parse_all (v # vs) =
     (case parse v of
        Inl ex \<Rightarrow> Inl ex
      | Inr c \<Rightarrow> (case parse_all vs of Inl ex \<Rightarrow> Inl ex | Inr cs \<Rightarrow> Inr (c # cs)))"

text \<open>Lines 87-110: the two sub-lists and the choice between them.\<close>

definition relevant_set :: "name \<Rightarrow> rdata list \<Rightarrow> error + CAAIssue list" where
  "relevant_set domain rr =
     (case parse_all (map caa_value (filter (\<lambda>r. tag r = ''issuewild'') rr)) of
        Inl ex \<Rightarrow> Inl (UncaughtPy ex)
      | Inr issue_wild_set \<Rightarrow>
          (case parse_all (map caa_value (filter (\<lambda>r. tag r = ''issue'') rr)) of
             Inl ex \<Rightarrow> Inl (UncaughtPy ex)
           | Inr issue_set \<Rightarrow>
               if is_wild domain then
                 (if issue_wild_set \<noteq> [] then Inr issue_wild_set
                  else if issue_set \<noteq> [] then Inr issue_set
                  else Inl (NoCAARecordsError domain))
               else
                 (if issue_set \<noteq> [] then Inr issue_set
                  else Inl (NoCAARecordsError domain))))"

text \<open>Lines 117-127.\<close>

definition resolve_priority :: "env \<Rightarrow> name \<Rightarrow> CAAIssue \<Rightarrow> error + int" where
  "resolve_priority e domain c =
     (case get_property c ''priority'' None of
        None \<Rightarrow> Inr 0
      | Some p \<Rightarrow>
          (case py_int (max_str_digits e) p of
             None \<Rightarrow> Inl (InvalidPriorityError domain (Inl p))
           | Some n \<Rightarrow> if n < 1 then Inl (InvalidPriorityError domain (Inr n)) else Inr n))"

text \<open>Lines 112-129: the loop over \<^verbatim>\<open>relevant_set\<close>; the issuers come out in the order
  of the records.\<close>

fun collect_issuers :: "env \<Rightarrow> name \<Rightarrow> CAAIssue list \<Rightarrow> error + Issuer list" where
  "collect_issuers e domain [] = Inr []"
| "collect_issuers e domain (c # cs) =
     (if get_property c ''discovery'' (Some ''true'') \<noteq> Some ''true''
      then collect_issuers e domain cs
      else (case resolve_priority e domain c of
              Inl err \<Rightarrow> Inl err
            | Inr p \<Rightarrow>
                (case collect_issuers e domain cs of
                   Inl err \<Rightarrow> Inl err
                 | Inr issuers \<Rightarrow> Inr (\<lparr>issuer = CAAIssue.issuer c, priority = p\<rparr> # issuers))))"

text \<open>Lines 86-129 for one domain: what is done with the record set the walk found.\<close>

definition select_issuers :: "env \<Rightarrow> name \<Rightarrow> rdata list \<Rightarrow> error + Issuer list" where
  "select_issuers e domain rr =
     (case relevant_set domain rr of
        Inl err \<Rightarrow> Inl err
      | Inr cs \<Rightarrow> collect_issuers e domain cs)"

text \<open>Lines 65-68: where the walk starts.\<close>

definition start_name :: "name \<Rightarrow> dns_exception + name" where
  "start_name domain = (if is_wild domain then parent domain else Inr domain)"

text \<open>Lines 65-84: the walk from the start name, and the check after the loop.\<close>

definition find_rrset :: "env \<Rightarrow> name \<Rightarrow> name list \<times> (error + rdata list)" where
  "find_rrset e domain =
     (case start_name domain of
        Inl ex \<Rightarrow> ([], Inl (UncaughtDNS ex))
      | Inr n \<Rightarrow>
          (case walk e n None of
             (qs, Inl err) \<Rightarrow> (qs, Inl err)
           | (qs, Inr None) \<Rightarrow> (qs, Inl (NoCAARecordsError domain))
           | (qs, Inr (Some rr)) \<Rightarrow>
               if rr = [] then (qs, Inl (NoCAARecordsError domain)) else (qs, Inr rr)))"

text \<open>Lines 60-131: the body of the loop over \<^verbatim>\<open>config.domains\<close>, with the names it
  queried.\<close>

definition process_domain :: "env \<Rightarrow> string \<Rightarrow> name list \<times> (error + name \<times> Issuer list)" where
  "process_domain e d =
     (case from_text e d of
        Inl ex \<Rightarrow> ([], Inl (DomainParseError d ex))
      | Inr domain \<Rightarrow>
          (case find_rrset e domain of
             (qs, Inl err) \<Rightarrow> (qs, Inl err)
           | (qs, Inr rr) \<Rightarrow>
               (case select_issuers e domain (processing_order e rr) of
                  Inl err \<Rightarrow> (qs, Inl err)
                | Inr issuers \<Rightarrow> (qs, Inr (domain, issuers)))))"

text \<open>Lines 59-131: the loop; the first error ends it.\<close>

fun process_domains :: "env \<Rightarrow> string list \<Rightarrow> name list \<times> (error + (name \<times> Issuer list) list)" where
  "process_domains e [] = ([], Inr [])"
| "process_domains e (d # ds) =
     (case process_domain e d of
        (qs, Inl err) \<Rightarrow> (qs, Inl err)
      | (qs, Inr entry) \<Rightarrow>
          (case process_domains e ds of
             (qs', Inl err) \<Rightarrow> (qs @ qs', Inl err)
           | (qs', Inr entries) \<Rightarrow> (qs @ qs', Inr (entry # entries))))"

text \<open>Lines 133-138: the running set, \<^verbatim>\<open>None\<close> before the first domain.\<close>

fun intersect_domains :: "Issuer list option \<Rightarrow> (name \<times> Issuer list) list \<Rightarrow> Issuer list option" where
  "intersect_domains issuers_intersection [] = issuers_intersection"
| "intersect_domains issuers_intersection ((_, issuers) # rest) =
     intersect_domains
       (case issuers_intersection of
          None \<Rightarrow> Some (set_of_list issuers)
        | Some s \<Rightarrow> Some (intersection_update s issuers))
       rest"

text \<open>Lines 140-148.\<close>

definition rank_issuers :: "env \<Rightarrow> Issuer list option \<Rightarrow> error + bytes list" where
  "rank_issuers e issuers_intersection =
     (case issuers_intersection of
        None \<Rightarrow> Inl NoCommonIssuersError
      | Some s \<Rightarrow>
          if s = [] then Inl NoCommonIssuersError
          else Inr (map Issuer.issuer (sorted_by_priority (set_iter e s))))"

text \<open>\<^verbatim>\<open>auto_discover_server\<close> on \<^verbatim>\<open>config.domains\<close>: the names queried, and the error
  raised or the list returned.\<close>

definition auto_discover_server :: "env \<Rightarrow> string list \<Rightarrow> name list \<times> (error + bytes list)" where
  "auto_discover_server e domains =
     (case process_domains e domains of
        (qs, Inl err) \<Rightarrow> (qs, Inl err)
      | (qs, Inr entries) \<Rightarrow> (qs, rank_issuers e (intersect_domains None entries)))"

subsection \<open>issuer\_to\_directory\<close>

text \<open>\<^verbatim>\<open>issuer.decode("ascii")\<close> raises UnicodeDecodeError on a byte above 127;
  \<^verbatim>\<open>str.lower()\<close> on a string of ASCII characters changes A to Z only.\<close>

definition decode_ascii :: "bytes \<Rightarrow> py_exception + string" where
  "decode_ascii b = (if list_all (\<lambda>c. (of_char c :: nat) < 128) b then Inr b else Inl UnicodeDecodeError)"

definition ascii_lower :: "char \<Rightarrow> char" where
  "ascii_lower c =
     (if 65 \<le> (of_char c :: nat) \<and> (of_char c :: nat) \<le> 90 then char_of (of_char c + 32 :: nat) else c)"

definition str_lower :: "string \<Rightarrow> string" where
  "str_lower s = map ascii_lower s"

definition issuer_to_directory :: "bytes \<Rightarrow> error + string" where
  "issuer_to_directory b =
     (case decode_ascii b of
        Inl ex \<Rightarrow> if ex = UnicodeDecodeError then Inl (InvalidIssuerEncodingError b) else Inl (UncaughtPy ex)
      | Inr s \<Rightarrow> Inr (''https://'' @ str_lower s @ ''/.well-known/acme''))"

subsection \<open>Notions of the specification\<close>

text \<open>\<^verbatim>\<open>sep.join(segs)\<close>: the inverse of cutting at every separator.\<close>

fun join :: "char \<Rightarrow> bytes list \<Rightarrow> bytes" where
  "join sep [] = []"
| "join sep [s] = s"
| "join sep (s # t # ts) = s @ sep # join sep (t # ts)"

text \<open>Specification 4.1, a segment after the first: cut at the first \<^verbatim>\<open>=\<close> only; without
  one the value is absent; name and value are trimmed.\<close>

definition spec_property :: "bytes \<Rightarrow> bytes \<times> bytes option" where
  "spec_property seg =
     (if CHR ''='' \<in> set seg
      then (strip (takeWhile (\<lambda>c. c \<noteq> CHR ''='') seg),
            Some (strip (tl (dropWhile (\<lambda>c. c \<noteq> CHR ''='') seg))))
      else (strip seg, None))"

text \<open>Specification 4.5, lower-casing: each capital letter by the table, every other
  character unchanged.\<close>

definition spec_lower :: "char \<Rightarrow> char" where
  "spec_lower c =
     (case map_of (zip ''ABCDEFGHIJKLMNOPQRSTUVWXYZ'' ''abcdefghijklmnopqrstuvwxyz'') c of
        Some l \<Rightarrow> l
      | None \<Rightarrow> c)"

text \<open>An outcome that is the error ``Invalid priority''.\<close>

definition raises_invalid_priority :: "error + 'a \<Rightarrow> bool" where
  "raises_invalid_priority r = (case r of Inl (InvalidPriorityError _ _) \<Rightarrow> True | _ \<Rightarrow> False)"

text \<open>Specification 4.2: the names a walk from \<open>n\<close> can query, \<open>n\<close> with 0, 1, ... of its
  leftmost labels stripped, down to the last name before the root; and an explicit empty
  answer (no exception, no record).\<close>

definition candidates :: "name \<Rightarrow> name list" where
  "candidates n = map (\<lambda>i. drop i n) [0 ..< length n - 1]"

definition empty_answer :: "env \<Rightarrow> name \<Rightarrow> bool" where
  "empty_answer e n = (case resolve e n of Inl _ \<Rightarrow> False | Inr a \<Rightarrow> \<not> truthy a)"

text \<open>Specification 4.3: the sub-list the selector uses, the parsed value of a record,
  and the discovery filter (a record passes when the property is absent or is the
  literal \<^verbatim>\<open>true\<close>).\<close>

definition chosen_records :: "name \<Rightarrow> rdata list \<Rightarrow> rdata list" where
  "chosen_records domain rr =
     (if is_wild domain \<and> filter (\<lambda>r. tag r = ''issuewild'') rr \<noteq> []
      then filter (\<lambda>r. tag r = ''issuewild'') rr
      else filter (\<lambda>r. tag r = ''issue'') rr)"

definition caa_issue :: "rdata \<Rightarrow> CAAIssue" where
  "caa_issue r = projr (parse (caa_value r))"

definition discovery_allowed :: "CAAIssue \<Rightarrow> bool" where
  "discovery_allowed c = (case parameters c ''discovery'' of None \<Rightarrow> True | Some v \<Rightarrow> v = Some ''true'')"

text \<open>Specification 4.3: the Issuer emitted for a record that passed the filter.\<close>

definition make_issuer :: "env \<Rightarrow> name \<Rightarrow> CAAIssue \<Rightarrow> Issuer" where
  "make_issuer e domain c =
     \<lparr>issuer = CAAIssue.issuer c, priority = projr (resolve_priority e domain c)\<rparr>"

subsection \<open>An environment to evaluate in\<close>

definition caa :: "bytes \<Rightarrow> bytes \<Rightarrow> rdata" where
  "caa t v = \<lparr>flags = 0, tag = t, caa_value = v\<rparr>"

text \<open>Four zones with CAA records (\<^verbatim>\<open>example.com\<close>, \<^verbatim>\<open>example.org\<close>,
  \<^verbatim>\<open>quiet.example\<close>, \<^verbatim>\<open>ties.example\<close>), one whose lookup fails (\<^verbatim>\<open>fail.net\<close>);
  every other name has no CAA answer.\<close>

definition example_zone :: "name \<Rightarrow> dns_exception + rdata list option" where
  "example_zone n =
     (if n = [''example'', ''com'', []] then
        Inr (Some [caa ''issue'' ''ca1.example; priority=5'',
                   caa ''issue'' ''ca2.example; priority=3'',
                   caa ''issuewild'' ''ca3.example''])
      else if n = [''example'', ''org'', []] then
        Inr (Some [caa ''issue'' ''ca1.example; priority=1'',
                   caa ''issue'' ''ca2.example; priority=3''])
      else if n = [''quiet'', ''example'', []] then
        Inr (Some [caa ''issue'' ''ca1.example; discovery=false'',
                   caa ''issue'' ''ca2.example; discovery''])
      else if n = [''ties'', ''example'', []] then
        Inr (Some [caa ''issue'' ''ca1.example'', caa ''issue'' ''ca2.example''])
      else if n = [''fail'', ''net'', []] then Inl (DNSException ''timeout'')
      else Inr None)"

definition example_names :: "(string \<times> name) list" where
  "example_names =
     [(''www.example.com'', [''www'', ''example'', ''com'', []]),
      (''*.example.com'', [''*'', ''example'', ''com'', []]),
      (''example.org'', [''example'', ''org'', []]),
      (''quiet.example'', [''quiet'', ''example'', []]),
      (''ties.example'', [''ties'', ''example'', []]),
      (''a.fail.net'', [''a'', ''fail'', ''net'', []]),
      (''nothing.test'', [''nothing'', ''test'', []])]"

definition example_env :: env where
  "example_env =
     \<lparr>from_text = (\<lambda>d. case map_of example_names d of
                          Some n \<Rightarrow> Inr n
                        | None \<Rightarrow> Inl (DNSException ''bad name'')),
      resolve = example_zone,
      processing_order = (\<lambda>rr. rr),
      set_slot = (\<lambda>ids k. length (takeWhile (\<lambda>i. i \<noteq> k) ids)),
      max_str_digits = 4300\<rparr>"

text \<open>In \<open>example_env\<close> a key's slot is its position among the identifiers inserted, so
  a set is iterated in insertion order. The same environment with a hash table that
  stores the identifiers in the reverse of that order:\<close>

definition example_env_slots :: env where
  "example_env_slots =
     example_env\<lparr>set_slot := (\<lambda>ids k. length ids - length (takeWhile (\<lambda>i. i \<noteq> k) ids))\<rparr>"

text \<open>The same environment with a \<open>processing_order\<close> that returns the records in
  reverse.\<close>

definition example_env_reversed :: env where
  "example_env_reversed = example_env\<lparr>processing_order := rev\<rparr>"

section \<open>Properties\<close>

subsection \<open>The CAA value parser\<close>

text \<open>\<open>strip\<close> removes a prefix and a suffix of whitespace, and what is left neither starts
  nor ends with whitespace.\<close>

lemma strip_spec:
  "\<exists>l r. b = l @ strip b @ r \<and> list_all is_space l \<and> list_all is_space r \<and>
     (strip b = [] \<or> \<not> is_space (hd (strip b)) \<and> \<not> is_space (last (strip b)))"
proof (intro exI conjI)
  let ?d = "dropWhile is_space b"
  let ?l = "takeWhile is_space b"
  let ?r = "rev (takeWhile is_space (rev ?d))"
  have d: "?d = strip b @ ?r"
    by (metis rev_append rev_rev_ident strip_def takeWhile_dropWhile_id)
  then show "b = ?l @ strip b @ ?r"
    by (metis takeWhile_dropWhile_id)
  show "list_all is_space ?l"
    by (simp add: list_all_iff) (metis set_takeWhileD)
  show "list_all is_space ?r"
    by (simp add: list_all_iff) (metis set_takeWhileD)
  show "strip b = [] \<or> \<not> is_space (hd (strip b)) \<and> \<not> is_space (last (strip b))"
  proof (cases "strip b = []")
    case True
    then show ?thesis ..
  next
    case False
    then have ne: "dropWhile is_space (rev ?d) \<noteq> []"
      by (simp add: strip_def)
    then have "\<not> is_space (hd (dropWhile is_space (rev ?d)))"
      by (rule hd_dropWhile)
    then have l: "\<not> is_space (last (strip b))"
      using ne by (simp add: strip_def last_rev)
    from False d have "?d \<noteq> []"
      by (metis append_is_Nil_conv)
    then have "\<not> is_space (hd ?d)"
      by (rule hd_dropWhile)
    moreover have "hd ?d = hd (strip b)"
      using False d by (metis hd_append2)
    ultimately show ?thesis
      using l by simp
  qed
qed

lemma bytes_split_not_Nil: "bytes_split sep m b \<noteq> []"
  by (cases "split sep m b") (simp add: bytes_split_def)

lemma join_Cons_Cons: "join sep ((c # s) # ss) = c # join sep (s # ss)"
  by (cases ss) simp_all

lemma join_split: "join sep (bytes_split sep None b) = b"
  by (induction b) (auto simp: bytes_split_def join_Cons_Cons split: prod.splits)

lemma split_no_sep: "list_all (\<lambda>s. sep \<notin> set s) (bytes_split sep None b)"
  by (induction b) (auto simp: bytes_split_def split: prod.splits)

lemma split_zero: "split sep (Some 0) b = (b, [])"
  by (induction b) auto

lemma split_once:
  "bytes_split sep (Some 1) p =
     (if sep \<in> set p then [takeWhile (\<lambda>c. c \<noteq> sep) p, tl (dropWhile (\<lambda>c. c \<noteq> sep) p)] else [p])"
  by (induction p) (auto simp: bytes_split_def split_zero split: prod.splits)

lemma parse_parameter_spec:
  "parse_parameter out p = Inr (out(fst (spec_property p) \<mapsto> snd (spec_property p)))"
  by (simp only: parse_parameter_def split_once) (simp add: spec_property_def)

lemma map_add_last_wins:
  "m(k \<mapsto> v) ++ map_of (rev kvs) = m ++ map_of (rev ((k, v) # kvs))"
  by (rule ext) (simp add: map_add_def split: option.splits)

lemma parse_parameters_spec:
  "parse_parameters out ps = Inr (out ++ map_of (rev (map spec_property ps)))"
proof (induction ps arbitrary: out)
  case Nil
  show ?case by simp
next
  case (Cons p ps)
  obtain k v where kv: "spec_property p = (k, v)"
    by (cases "spec_property p")
  have "parse_parameters out (p # ps) = parse_parameters (out(k \<mapsto> v)) ps"
    using kv by (simp add: parse_parameter_spec)
  also have "\<dots> = Inr (out(k \<mapsto> v) ++ map_of (rev (map spec_property ps)))"
    by (rule Cons.IH)
  also have "\<dots> = Inr (out ++ map_of (rev (map spec_property (p # ps))))"
    using kv by (simp only: map_add_last_wins list.map)
  finally show ?case .
qed

lemma parse_total:
  "parse raw = Inr \<lparr>CAAIssue.issuer = strip (hd (bytes_split CHR '';'' None raw)),
     parameters = map_of (rev (map spec_property (tl (bytes_split CHR '';'' None raw))))\<rparr>"
  by (simp add: parse_def parse_parameters_spec bytes_split_not_Nil split: list.splits)

text \<open>
  C7. For every byte string \<open>raw\<close>, \<open>parse\<close> returns a value and raises nothing. The
  value is determined by the segments of \<open>raw\<close> between its semicolons (the segments hold
  no semicolon and, joined with semicolons, give \<open>raw\<close> back): the issuer is the first
  segment trimmed; each later segment is a property, cut at its first \<^verbatim>\<open>=\<close> only, with
  an absent value when it has none and with name and value trimmed otherwise; of two
  properties of one name the later one is kept.
\<close>

theorem parse_spec:
  "\<exists>segs. segs \<noteq> [] \<and> join CHR '';'' segs = raw \<and> list_all (\<lambda>s. CHR '';'' \<notin> set s) segs \<and>
     parse raw = Inr \<lparr>CAAIssue.issuer = strip (hd segs),
                      parameters = map_of (rev (map spec_property (tl segs)))\<rparr>"
proof (intro exI conjI)
  show "bytes_split CHR '';'' None raw \<noteq> []"
    by (rule bytes_split_not_Nil)
  show "join CHR '';'' (bytes_split CHR '';'' None raw) = raw"
    by (rule join_split)
  show "list_all (\<lambda>s. CHR '';'' \<notin> set s) (bytes_split CHR '';'' None raw)"
    by (rule split_no_sep)
  show "parse raw = Inr \<lparr>CAAIssue.issuer = strip (hd (bytes_split CHR '';'' None raw)),
          parameters = map_of (rev (map spec_property (tl (bytes_split CHR '';'' None raw))))\<rparr>"
    by (rule parse_total)
qed

theorem parse_spec_witness:
  "\<exists>c. parse ''ca.example; flag; x=1; x = 2=3 '' = Inr c \<and> CAAIssue.issuer c = ''ca.example'' \<and>
     parameters c ''flag'' = Some None \<and> parameters c ''x'' = Some (Some ''2=3'') \<and>
     parameters c ''validationmethods'' = None"
proof -
  from parse_spec [of "''ca.example; flag; x=1; x = 2=3 ''"]
  obtain c where c: "parse ''ca.example; flag; x=1; x = 2=3 '' = Inr c"
    by blast
  then have "CAAIssue.issuer c = ''ca.example'' \<and> parameters c ''flag'' = Some None \<and>
      parameters c ''x'' = Some (Some ''2=3'') \<and> parameters c ''validationmethods'' = None"
    by (auto simp: parse_def parse_parameter_def bytes_split_def strip_def is_space_def)
  with c show ?thesis
    by blast
qed

subsection \<open>The directory URL mapper\<close>

lemma range_cases:
  "65 \<le> (n::nat) \<Longrightarrow> n \<le> 90 \<Longrightarrow>
   n = 65 \<or> n = 66 \<or> n = 67 \<or> n = 68 \<or> n = 69 \<or> n = 70 \<or> n = 71 \<or> n = 72 \<or> n = 73 \<or> n = 74 \<or>
   n = 75 \<or> n = 76 \<or> n = 77 \<or> n = 78 \<or> n = 79 \<or> n = 80 \<or> n = 81 \<or> n = 82 \<or> n = 83 \<or> n = 84 \<or>
   n = 85 \<or> n = 86 \<or> n = 87 \<or> n = 88 \<or> n = 89 \<or> n = 90"
  by presburger

lemma upper_range:
  assumes "65 \<le> (of_char c :: nat)" "(of_char c :: nat) \<le> 90"
  shows "c \<in> set ''ABCDEFGHIJKLMNOPQRSTUVWXYZ''"
proof -
  have "(of_char c :: nat) \<in> of_char ` set ''ABCDEFGHIJKLMNOPQRSTUVWXYZ''"
    using range_cases [OF assms] by simp
  then obtain u where "u \<in> set ''ABCDEFGHIJKLMNOPQRSTUVWXYZ''" and "(of_char c :: nat) = of_char u"
    by (rule imageE)
  then show ?thesis
    by (simp only: of_char_eq_iff)
qed

lemma ascii_lower_upper:
  "list_all (\<lambda>u. ascii_lower u = spec_lower u) ''ABCDEFGHIJKLMNOPQRSTUVWXYZ''"
  by code_simp

lemma ascii_lower_table: "ascii_lower c = spec_lower c"
proof (cases "c \<in> set ''ABCDEFGHIJKLMNOPQRSTUVWXYZ''")
  case True
  with ascii_lower_upper show ?thesis
    unfolding list_all_iff by (rule bspec)
next
  case False
  then have "\<not> (65 \<le> (of_char c :: nat) \<and> (of_char c :: nat) \<le> 90)"
    using upper_range by blast
  moreover have "length ''ABCDEFGHIJKLMNOPQRSTUVWXYZ'' = length ''abcdefghijklmnopqrstuvwxyz''"
    by simp
  then have "map_of (zip ''ABCDEFGHIJKLMNOPQRSTUVWXYZ'' ''abcdefghijklmnopqrstuvwxyz'') c = None"
    using False by (simp only: map_of_zip_is_None not_False_eq_True)
  ultimately show ?thesis
    by (simp only: ascii_lower_def spec_lower_def if_False option.case)
qed

text \<open>
  C8. An identifier all of whose bytes are ASCII (below 128) is mapped to
  \<^verbatim>\<open>https://\<close>, the identifier with its capital letters lower-cased, and
  \<^verbatim>\<open>/.well-known/acme\<close>; any other identifier gives InvalidIssuerEncodingError. The
  function has no other outcome.
\<close>

theorem issuer_to_directory_spec:
  "issuer_to_directory b =
     (if list_all (\<lambda>c. (of_char c :: nat) < 128) b
      then Inr (''https://'' @ map spec_lower b @ ''/.well-known/acme'')
      else Inl (InvalidIssuerEncodingError b))"
  by (simp add: issuer_to_directory_def decode_ascii_def str_lower_def ascii_lower_table)

theorem issuer_to_directory_spec_witness:
  "issuer_to_directory ''LetsEncrypt.ORG'' = Inr ''https://letsencrypt.org/.well-known/acme'' \<and>
   issuer_to_directory [CHR ''c'', CHR ''a'', CHR 0xC3, CHR 0xA9] =
     Inl (InvalidIssuerEncodingError [CHR ''c'', CHR ''a'', CHR 0xC3, CHR 0xA9])"
  using issuer_to_directory_spec [of "''LetsEncrypt.ORG''"]
    issuer_to_directory_spec [of "[CHR ''c'', CHR ''a'', CHR 0xC3, CHR 0xA9]"]
  by (simp add: spec_lower_def)

subsection \<open>The result is never empty\<close>

lemma sort_key_Nil_iff: "sort_key f xs = [] \<longleftrightarrow> xs = []"
  by (metis length_0_conv length_sort)

text \<open>
  C9. On an empty list of domains \<open>auto_discover_server\<close> raises NoCommonIssuersError,
  and on no input does it return the empty list.
\<close>

theorem never_empty:
  "snd (auto_discover_server e []) = Inl NoCommonIssuersError \<and>
   snd (auto_discover_server e ds) \<noteq> Inr []"
  by (auto simp: auto_discover_server_def rank_issuers_def sorted_by_priority_def set_iter_def
      sort_key_Nil_iff split: prod.splits sum.splits option.splits)

theorem never_empty_witness:
  "snd (auto_discover_server example_env []) = Inl NoCommonIssuersError \<and>
   snd (auto_discover_server example_env [''www.example.com'', ''example.org'']) \<noteq> Inr []"
  by (rule never_empty)

subsection \<open>Priority resolution\<close>

lemma get_priority:
  "get_property c ''priority'' None =
     (case parameters c ''priority'' of Some (Some v) \<Rightarrow> Some v | _ \<Rightarrow> None)"
  by (simp add: get_property_def split: option.splits)

text \<open>
  C5, as the code has it. Priority resolution raises InvalidPriorityError exactly when the
  \<^verbatim>\<open>priority\<close> property is present with a value and \<^verbatim>\<open>int()\<close> refuses that value or
  converts it to an integer below 1. A record without the property, and also a record
  whose \<^verbatim>\<open>priority\<close> property has no value (no \<^verbatim>\<open>=\<close> in its segment), is accepted
  with priority 0; a value that converts to an integer from 1 on is accepted with that
  integer.
\<close>

theorem resolve_priority_spec:
  "(raises_invalid_priority (resolve_priority e d c) \<longleftrightarrow>
      (\<exists>v. parameters c ''priority'' = Some (Some v) \<and>
           (case py_int (max_str_digits e) v of None \<Rightarrow> True | Some n \<Rightarrow> n < 1))) \<and>
   (resolve_priority e d c = Inr 0 \<longleftrightarrow>
      parameters c ''priority'' = None \<or> parameters c ''priority'' = Some None) \<and>
   (\<forall>n. n \<noteq> 0 \<longrightarrow>
      (resolve_priority e d c = Inr n \<longleftrightarrow>
         (\<exists>v. parameters c ''priority'' = Some (Some v) \<and> py_int (max_str_digits e) v = Some n \<and> 1 \<le> n)))"
  by (auto simp: resolve_priority_def get_priority raises_invalid_priority_def split: option.splits)

theorem resolve_priority_spec_witness:
  "raises_invalid_priority
     (resolve_priority example_env [''example'', ''com'', []]
        \<lparr>CAAIssue.issuer = ''ca.example'', parameters = [''priority'' \<mapsto> Some ''0'']\<rparr>) \<and>
   resolve_priority example_env [''example'', ''com'', []]
     \<lparr>CAAIssue.issuer = ''ca.example'', parameters = Map.empty\<rparr> = Inr 0"
  using resolve_priority_spec [of example_env "[''example'', ''com'', []]"
      "\<lparr>CAAIssue.issuer = ''ca.example'', parameters = [''priority'' \<mapsto> Some ''0'']\<rparr>"]
    resolve_priority_spec [of example_env "[''example'', ''com'', []]"
      "\<lparr>CAAIssue.issuer = ''ca.example'', parameters = Map.empty\<rparr>"]
  by (simp add: example_env_def py_int_def is_digit_def is_space_def digit_value_def)

text \<open>The record \<^verbatim>\<open>ca.example; priority\<close> has the property, no integer can be read
  from it, and it is accepted with priority 0.\<close>

theorem bare_priority_counterexample:
  "select_issuers example_env [''example'', ''com'', []] [caa ''issue'' ''ca.example; priority''] =
     Inr [\<lparr>issuer = ''ca.example'', priority = 0\<rparr>] \<and>
   map_sum id (\<lambda>c. parameters c ''priority'') (parse ''ca.example; priority'') = Inr (Some None)"
  by code_simp

subsection \<open>The running set\<close>

lemma set_contains_iff: "set_contains s k \<longleftrightarrow> Issuer.issuer k \<in> Issuer.issuer ` set s"
proof
  assume "set_contains s k"
  then obtain m where "m \<in> set s" and "Issuer.issuer m = Issuer.issuer k"
    by (auto simp: set_contains_def Issuer_eq_def list_ex_iff)
  then show "Issuer.issuer k \<in> Issuer.issuer ` set s"
    by (metis imageI)
next
  assume "Issuer.issuer k \<in> Issuer.issuer ` set s"
  then obtain m where "m \<in> set s" and "Issuer.issuer k = Issuer.issuer m"
    by (rule imageE)
  then show "set_contains s k"
    by (auto simp: set_contains_def Issuer_eq_def list_ex_iff)
qed

lemma foldl_filter: "foldl (\<lambda>r k. if P k then f r k else r) a xs = foldl f a (filter P xs)"
  by (induction xs arbitrary: a) auto

lemma intersection_update_alt:
  "intersection_update s other = set_of_list (filter (set_contains s) other)"
  by (simp add: intersection_update_def set_of_list_def foldl_filter)

lemma ids_foldl_add:
  "Issuer.issuer ` set (foldl set_add acc xs) = Issuer.issuer ` set acc \<union> Issuer.issuer ` set xs"
  by (induction xs arbitrary: acc) (auto simp: set_add_def set_contains_iff)

lemma distinct_foldl_add:
  "distinct (map Issuer.issuer acc) \<Longrightarrow> distinct (map Issuer.issuer (foldl set_add acc xs))"
  by (induction xs arbitrary: acc) (auto simp: set_add_def set_contains_iff)

lemma member_foldl_add:
  "m \<in> set (foldl set_add acc xs) \<longleftrightarrow>
     m \<in> set acc \<or>
     (Issuer.issuer m \<notin> Issuer.issuer ` set acc \<and>
      find (\<lambda>k. Issuer.issuer k = Issuer.issuer m) xs = Some m)"
proof (induction xs arbitrary: acc)
  case Nil
  show ?case by simp
next
  case (Cons x xs)
  show ?case
  proof (cases "set_contains acc x")
    case True
    then have "Issuer.issuer x \<in> Issuer.issuer ` set acc"
      by (simp add: set_contains_iff)
    with True Cons [of acc] show ?thesis
      by (auto simp: set_add_def)
  next
    case False
    then have "Issuer.issuer x \<notin> Issuer.issuer ` set acc"
      by (simp add: set_contains_iff)
    with False Cons [of "acc @ [x]"] show ?thesis
      by (auto simp: set_add_def)
  qed
qed

lemma find_filter: "find P (filter Q xs) = find (\<lambda>k. Q k \<and> P k) xs"
  by (induction xs) auto

lemma ids_set_of_list: "Issuer.issuer ` set (set_of_list xs) = Issuer.issuer ` set xs"
  by (simp add: set_of_list_def ids_foldl_add)

lemma distinct_set_of_list: "distinct (map Issuer.issuer (set_of_list xs))"
  by (simp add: set_of_list_def distinct_foldl_add)

lemma member_set_of_list:
  "m \<in> set (set_of_list xs) \<longleftrightarrow> find (\<lambda>k. Issuer.issuer k = Issuer.issuer m) xs = Some m"
  by (simp add: set_of_list_def member_foldl_add)

lemma find_Some_mem: "find P xs = Some x \<Longrightarrow> x \<in> set xs \<and> P x"
  by (induction xs) (auto split: if_splits)

lemma ids_intersection_update:
  "Issuer.issuer ` set (intersection_update s other) =
     Issuer.issuer ` set s \<inter> Issuer.issuer ` set other"
proof -
  have "Issuer.issuer ` set (filter (set_contains s) other) =
      Issuer.issuer ` set s \<inter> Issuer.issuer ` set other"
  proof (intro equalityI subsetI)
    fix i
    assume "i \<in> Issuer.issuer ` set (filter (set_contains s) other)"
    then obtain k where "k \<in> set other" and "set_contains s k" and "i = Issuer.issuer k"
      by auto
    then show "i \<in> Issuer.issuer ` set s \<inter> Issuer.issuer ` set other"
      by (simp add: set_contains_iff)
  next
    fix i
    assume "i \<in> Issuer.issuer ` set s \<inter> Issuer.issuer ` set other"
    then have "i \<in> Issuer.issuer ` set s" and "i \<in> Issuer.issuer ` set other"
      by blast+
    then obtain k where "k \<in> set other" and "i = Issuer.issuer k" and "i \<in> Issuer.issuer ` set s"
      by blast
    then have "k \<in> set (filter (set_contains s) other)"
      by (simp add: set_contains_iff)
    with \<open>i = Issuer.issuer k\<close> show "i \<in> Issuer.issuer ` set (filter (set_contains s) other)"
      by (rule image_eqI)
  qed
  then show ?thesis
    by (simp only: intersection_update_alt ids_set_of_list)
qed

lemma distinct_intersection_update: "distinct (map Issuer.issuer (intersection_update s other))"
  by (simp add: intersection_update_alt distinct_set_of_list)

lemma member_intersection_update:
  "m \<in> set (intersection_update s other) \<longleftrightarrow>
     Issuer.issuer m \<in> Issuer.issuer ` set s \<and>
     find (\<lambda>k. Issuer.issuer k = Issuer.issuer m) other = Some m"
proof -
  have "find (\<lambda>k. set_contains s k \<and> Issuer.issuer k = Issuer.issuer m) other =
      (if Issuer.issuer m \<in> Issuer.issuer ` set s
       then find (\<lambda>k. Issuer.issuer k = Issuer.issuer m) other else None)"
    by (induction other) (auto simp: set_contains_iff)
  then show ?thesis
    by (simp add: intersection_update_alt member_set_of_list find_filter)
qed

lemma filter_distinct_key:
  "distinct (map f xs) \<Longrightarrow> x \<in> set xs \<Longrightarrow> filter (\<lambda>m. f m = f x) xs = [x]"
proof (induction xs)
  case Nil
  then show ?case by simp
next
  case (Cons y ys)
  show ?case
  proof (cases "x = y")
    case True
    have "filter (\<lambda>m. f m = f y) ys = []"
      using Cons.prems(1) by (simp add: filter_empty_conv) (metis imageI)
    with True show ?thesis by simp
  next
    case False
    with Cons.prems have "x \<in> set ys" and "f y \<noteq> f x"
      by (auto simp: image_iff)
    with Cons show ?thesis by simp
  qed
qed

text \<open>
  C1, as the code has it. An identifier is in the running set after
  \<open>intersection_update\<close> exactly when it was in the running set and occurs in the later
  domain's list. The member kept for it is the first entry of the later list with that
  identifier, so it carries the later domain's priority: of two domains that authorize
  the identifier \<open>i\<close> with priorities \<open>p1\<close> and \<open>p2\<close>, in this order, the final running set
  holds \<open>i\<close> once, with priority \<open>p2\<close>.
\<close>

theorem intersection_update_spec:
  "(i \<in> Issuer.issuer ` set (intersection_update s other) \<longleftrightarrow>
      i \<in> Issuer.issuer ` set s \<and> i \<in> Issuer.issuer ` set other) \<and>
   (m \<in> set (intersection_update s other) \<longleftrightarrow>
      Issuer.issuer m \<in> Issuer.issuer ` set s \<and>
      find (\<lambda>k. Issuer.issuer k = Issuer.issuer m) other = Some m) \<and>
   (\<lparr>issuer = i, priority = p1\<rparr> \<in> set l1 \<and>
    find (\<lambda>k. Issuer.issuer k = i) l2 = Some \<lparr>issuer = i, priority = p2\<rparr> \<longrightarrow>
      (\<exists>s'. intersect_domains None [(d1, l1), (d2, l2)] = Some s' \<and>
            filter (\<lambda>m. Issuer.issuer m = i) s' = [\<lparr>issuer = i, priority = p2\<rparr>]))"
proof (intro conjI impI)
  show "i \<in> Issuer.issuer ` set (intersection_update s other) \<longleftrightarrow>
      i \<in> Issuer.issuer ` set s \<and> i \<in> Issuer.issuer ` set other"
    by (simp add: ids_intersection_update)
  show "m \<in> set (intersection_update s other) \<longleftrightarrow>
      Issuer.issuer m \<in> Issuer.issuer ` set s \<and>
      find (\<lambda>k. Issuer.issuer k = Issuer.issuer m) other = Some m"
    by (rule member_intersection_update)
next
  let ?k2 = "\<lparr>issuer = i, priority = p2\<rparr>"
  let ?s' = "intersection_update (set_of_list l1) l2"
  assume a: "\<lparr>issuer = i, priority = p1\<rparr> \<in> set l1 \<and>
    find (\<lambda>k. Issuer.issuer k = i) l2 = Some ?k2"
  then have "i \<in> Issuer.issuer ` set l1"
    by force
  with a have "?k2 \<in> set ?s'"
    by (simp add: member_intersection_update ids_set_of_list)
  then have "filter (\<lambda>m. Issuer.issuer m = Issuer.issuer ?k2) ?s' = [?k2]"
    by (rule filter_distinct_key [OF distinct_intersection_update])
  then show "\<exists>s'. intersect_domains None [(d1, l1), (d2, l2)] = Some s' \<and>
            filter (\<lambda>m. Issuer.issuer m = i) s' = [?k2]"
    by simp
qed

theorem intersection_update_spec_witness:
  "\<exists>s'. intersect_domains None
          [([''example'', ''com'', []],
            [\<lparr>issuer = ''ca1.example'', priority = 5\<rparr>, \<lparr>issuer = ''ca2.example'', priority = 3\<rparr>]),
           ([''example'', ''org'', []],
            [\<lparr>issuer = ''ca1.example'', priority = 1\<rparr>, \<lparr>issuer = ''ca2.example'', priority = 3\<rparr>])] =
          Some s' \<and>
        filter (\<lambda>m. Issuer.issuer m = ''ca1.example'') s' = [\<lparr>issuer = ''ca1.example'', priority = 1\<rparr>]"
  using intersection_update_spec [where i = "''ca1.example''" and ?p1.0 = 5 and ?p2.0 = 1
      and ?l1.0 = "[\<lparr>issuer = ''ca1.example'', priority = 5\<rparr>, \<lparr>issuer = ''ca2.example'', priority = 3\<rparr>]"
      and ?l2.0 = "[\<lparr>issuer = ''ca1.example'', priority = 1\<rparr>, \<lparr>issuer = ''ca2.example'', priority = 3\<rparr>]"
      and ?d1.0 = "[''example'', ''com'', []]" and ?d2.0 = "[''example'', ''org'', []]"]
  by simp

text \<open>Two domains give \<^verbatim>\<open>ca1.example\<close> the priorities 5 and 1, in this order: the
  running set holds it with priority 1, and the list returned is ordered by the second
  domain's priorities (1 before 3), not by the first domain's (3 before 5).\<close>

theorem later_priority_counterexample:
  "intersect_domains None
     [([''example'', ''com'', []], [\<lparr>issuer = ''ca1.example'', priority = 5\<rparr>]),
      ([''example'', ''org'', []], [\<lparr>issuer = ''ca1.example'', priority = 1\<rparr>])] =
     Some [\<lparr>issuer = ''ca1.example'', priority = 1\<rparr>] \<and>
   snd (process_domains example_env [''www.example.com'', ''example.org'']) =
     Inr [([''www'', ''example'', ''com'', []],
           [\<lparr>issuer = ''ca1.example'', priority = 5\<rparr>, \<lparr>issuer = ''ca2.example'', priority = 3\<rparr>]),
          ([''example'', ''org'', []],
           [\<lparr>issuer = ''ca1.example'', priority = 1\<rparr>, \<lparr>issuer = ''ca2.example'', priority = 3\<rparr>])] \<and>
   snd (auto_discover_server example_env [''www.example.com'', ''example.org'']) =
     Inr [''ca1.example'', ''ca2.example'']"
  by code_simp


subsection \<open>The ranked result\<close>

lemma intersect_domains_Some:
  "\<exists>s'. intersect_domains (Some s) entries = Some s' \<and>
        Issuer.issuer ` set s' = Issuer.issuer ` set s \<inter> (\<Inter>x\<in>set entries. Issuer.issuer ` set (snd x)) \<and>
        (distinct (map Issuer.issuer s) \<longrightarrow> distinct (map Issuer.issuer s'))"
proof (induction entries arbitrary: s)
  case Nil
  show ?case by simp
next
  case (Cons x entries)
  obtain d xs where x: "x = (d, xs)"
    by (cases x)
  from Cons [of "intersection_update s xs"] obtain s' where
    s': "intersect_domains (Some (intersection_update s xs)) entries = Some s'"
      "Issuer.issuer ` set s' =
         Issuer.issuer ` set (intersection_update s xs) \<inter> (\<Inter>x\<in>set entries. Issuer.issuer ` set (snd x))"
      "distinct (map Issuer.issuer s')"
    using distinct_intersection_update by blast
  have "Issuer.issuer ` set s' =
      Issuer.issuer ` set s \<inter> (\<Inter>x\<in>set (x # entries). Issuer.issuer ` set (snd x))"
    using s'(2) x by (auto simp: ids_intersection_update)
  with s' x show ?case by simp
qed

lemma intersect_domains_None:
  assumes "intersect_domains None entries = Some s"
  shows "entries \<noteq> [] \<and> Issuer.issuer ` set s = (\<Inter>x\<in>set entries. Issuer.issuer ` set (snd x)) \<and>
     distinct (map Issuer.issuer s)"
proof (cases entries)
  case Nil
  with assms show ?thesis by simp
next
  case (Cons x rest)
  obtain d xs where x: "x = (d, xs)"
    by (cases x)
  from intersect_domains_Some [of "set_of_list xs" rest] obtain s' where
    s': "intersect_domains (Some (set_of_list xs)) rest = Some s'"
      "Issuer.issuer ` set s' =
         Issuer.issuer ` set (set_of_list xs) \<inter> (\<Inter>x\<in>set rest. Issuer.issuer ` set (snd x))"
      "distinct (map Issuer.issuer s')"
    using distinct_set_of_list by blast
  from assms Cons x s'(1) have "s = s'" by simp
  moreover have "Issuer.issuer ` set s' = (\<Inter>x\<in>set entries. Issuer.issuer ` set (snd x))"
    using s'(2) Cons x by (auto simp: ids_set_of_list)
  ultimately show ?thesis
    using Cons s'(3) by simp
qed

text \<open>
  C2, as the code has it. When every domain was processed and the running set \<open>s\<close> is not
  empty, \<open>auto_discover_server\<close> returns the identifiers common to all domains, each once,
  in ascending order of the priorities stored in \<open>s\<close>. Issuers of equal priority appear in
  the order in which the set is iterated (the sort is stable over that sequence, which
  lists the members of \<open>s\<close>, each once); that order is the hash table's, not the order of
  the records.
\<close>

theorem ranking_spec:
  assumes "process_domains e ds = (qs, Inr entries)"
    and "intersect_domains None entries = Some s"
    and "s \<noteq> []"
  shows "\<exists>out. snd (auto_discover_server e ds) = Inr (map Issuer.issuer out) \<and>
           sorted (map priority out) \<and>
           (\<forall>p. filter (\<lambda>m. priority m = p) out = filter (\<lambda>m. priority m = p) (set_iter e s)) \<and>
           mset (set_iter e s) = mset s \<and>
           distinct (map Issuer.issuer out) \<and>
           set (map Issuer.issuer out) = (\<Inter>x\<in>set entries. Issuer.issuer ` set (snd x))"
proof (intro exI conjI allI)
  let ?out = "sorted_by_priority (set_iter e s)"
  show "snd (auto_discover_server e ds) = Inr (map Issuer.issuer ?out)"
    using assms by (simp add: auto_discover_server_def rank_issuers_def)
  show "sorted (map priority ?out)"
    by (simp add: sorted_by_priority_def)
  show "filter (\<lambda>m. priority m = p) ?out = filter (\<lambda>m. priority m = p) (set_iter e s)" for p
    by (simp add: sorted_by_priority_def sort_key_stable)
  show "mset (set_iter e s) = mset s"
    by (simp add: set_iter_def)
  have m: "mset ?out = mset s"
    by (simp add: sorted_by_priority_def set_iter_def)
  from intersect_domains_None [OF assms(2)]
  have ids: "Issuer.issuer ` set s = (\<Inter>x\<in>set entries. Issuer.issuer ` set (snd x))"
    and d: "distinct (map Issuer.issuer s)"
    by simp_all
  have "mset (map Issuer.issuer ?out) = mset (map Issuer.issuer s)"
    using m by (metis mset_map)
  with d show "distinct (map Issuer.issuer ?out)"
    by (metis mset_eq_imp_distinct_iff)
  have "set ?out = set s"
    using m by (rule mset_eq_setD)
  with ids show "set (map Issuer.issuer ?out) = (\<Inter>x\<in>set entries. Issuer.issuer ` set (snd x))"
    by simp
qed

theorem ranking_spec_witness:
  "\<exists>out. snd (auto_discover_server example_env_slots [''ties.example'']) = Inr (map Issuer.issuer out) \<and>
      sorted (map priority out) \<and>
      (\<forall>p. filter (\<lambda>m. priority m = p) out =
           filter (\<lambda>m. priority m = p)
             (set_iter example_env_slots
                [\<lparr>issuer = ''ca1.example'', priority = 0\<rparr>, \<lparr>issuer = ''ca2.example'', priority = 0\<rparr>])) \<and>
      mset (set_iter example_env_slots
              [\<lparr>issuer = ''ca1.example'', priority = 0\<rparr>, \<lparr>issuer = ''ca2.example'', priority = 0\<rparr>]) =
        mset [\<lparr>issuer = ''ca1.example'', priority = 0\<rparr>, \<lparr>issuer = ''ca2.example'', priority = 0\<rparr>] \<and>
      distinct (map Issuer.issuer out) \<and>
      set (map Issuer.issuer out) =
        (\<Inter>x\<in>set [([''ties'', ''example'', []],
                      [\<lparr>issuer = ''ca1.example'', priority = 0\<rparr>, \<lparr>issuer = ''ca2.example'', priority = 0\<rparr>])].
           Issuer.issuer ` set (snd x))"
proof (rule ranking_spec)
  show "process_domains example_env_slots [''ties.example''] =
      ([[''ties'', ''example'', []]],
       Inr [([''ties'', ''example'', []],
             [\<lparr>issuer = ''ca1.example'', priority = 0\<rparr>, \<lparr>issuer = ''ca2.example'', priority = 0\<rparr>])])"
    by code_simp
  show "intersect_domains None
      [([''ties'', ''example'', []],
        [\<lparr>issuer = ''ca1.example'', priority = 0\<rparr>, \<lparr>issuer = ''ca2.example'', priority = 0\<rparr>])] =
      Some [\<lparr>issuer = ''ca1.example'', priority = 0\<rparr>, \<lparr>issuer = ''ca2.example'', priority = 0\<rparr>]"
    by code_simp
  show "[\<lparr>issuer = ''ca1.example'', priority = 0\<rparr>, \<lparr>issuer = ''ca2.example'', priority = 0\<rparr>] \<noteq> []"
    by simp
qed

text \<open>Two records of priority 0, \<^verbatim>\<open>ca1.example\<close> before \<^verbatim>\<open>ca2.example\<close>; the table
  stores \<^verbatim>\<open>ca2.example\<close> first, and the list returned has it first.\<close>

theorem record_order_counterexample:
  "snd (process_domains example_env_slots [''ties.example'']) =
     Inr [([''ties'', ''example'', []],
           [\<lparr>issuer = ''ca1.example'', priority = 0\<rparr>, \<lparr>issuer = ''ca2.example'', priority = 0\<rparr>])] \<and>
   snd (auto_discover_server example_env_slots [''ties.example'']) =
     Inr [''ca2.example'', ''ca1.example'']"
  by code_simp


subsection \<open>The tree walk\<close>

lemma candidates_root: "candidates [l] = []"
  by (simp add: candidates_def)

lemma candidates_Cons: "rest \<noteq> [] \<Longrightarrow> candidates (l # rest) = (l # rest) # candidates rest"
proof -
  assume "rest \<noteq> []"
  then obtain k where k: "length rest = Suc k"
    by (cases rest) auto
  have "[0 ..< Suc k] = 0 # map Suc [0 ..< k]"
    by (simp add: upt_conv_Cons map_Suc_upt del: upt_Suc)
  then show ?thesis
    using k by (simp add: candidates_def comp_def del: upt_Suc)
qed

lemma walk_absolute:
  assumes "is_absolute n"
  shows "walk e n rr0 =
     (case dropWhile (empty_answer e) (candidates n) of
        [] \<Rightarrow> (candidates n,
               Inr (if candidates n = [] then rr0 else projr (resolve e (last (candidates n)))))
      | c # _ \<Rightarrow> (takeWhile (empty_answer e) (candidates n) @ [c],
                   case resolve e c of
                     Inl ex \<Rightarrow> Inl (DNSResolutionError c ex)
                   | Inr a \<Rightarrow> Inr a))"
  using assms
proof (induction n arbitrary: rr0)
  case Nil
  then show ?case by (simp add: is_absolute_def)
next
  case (Cons l rest)
  show ?case
  proof (cases "rest = []")
    case True
    with Cons.prems have "l = []"
      by (simp add: is_absolute_def)
    with True show ?thesis
      by (subst walk.simps) (simp add: candidates_root root_def)
  next
    case False
    with Cons.prems have abs: "is_absolute rest"
      by (simp add: is_absolute_def)
    have nr: "l # rest \<noteq> root"
      using False by (simp add: root_def)
    have par: "parent (l # rest) = Inr rest"
      using nr by (simp add: parent_def)
    show ?thesis
    proof (cases "resolve e (l # rest)")
      case (Inl ex)
      then have "\<not> empty_answer e (l # rest)"
        by (simp add: empty_answer_def)
      moreover have "walk e (l # rest) rr0 = ([l # rest], Inl (DNSResolutionError (l # rest) ex))"
        using nr Inl by (subst walk.simps) simp
      ultimately show ?thesis
        using False Inl by (simp add: candidates_Cons)
    next
      case (Inr a)
      show ?thesis
      proof (cases "truthy a")
        case True
        with Inr have "\<not> empty_answer e (l # rest)"
          by (simp add: empty_answer_def)
        moreover have "walk e (l # rest) rr0 = ([l # rest], Inr a)"
          using nr Inr True by (subst walk.simps) simp
        ultimately show ?thesis
          using False Inr by (simp add: candidates_Cons)
      next
        case nt: False
        let ?n = "l # rest" and ?cs = "candidates rest"
        from Inr nt have E: "empty_answer e ?n"
          by (simp add: empty_answer_def)
        have w: "walk e ?n rr0 = (case walk e rest a of (qs, r) \<Rightarrow> (?n # qs, r))"
          using nr Inr nt par by (subst walk.simps) simp
        have cs: "candidates ?n = ?n # ?cs"
          using False by (rule candidates_Cons)
        have last: "(if candidates ?n = [] then rr0 else projr (resolve e (last (candidates ?n)))) =
            (if ?cs = [] then a else projr (resolve e (last ?cs)))"
          by (simp add: cs Inr)
        show ?thesis
        proof (cases "dropWhile (empty_answer e) ?cs")
          case Nil
          have "walk e rest a = (?cs, Inr (if ?cs = [] then a else projr (resolve e (last ?cs))))"
            by (simp add: Cons.IH [OF abs, of a] Nil)
          then have "walk e ?n rr0 = (candidates ?n, Inr (if ?cs = [] then a else projr (resolve e (last ?cs))))"
            by (simp add: w cs)
          moreover have "dropWhile (empty_answer e) (candidates ?n) = []"
            by (simp add: cs E Nil)
          ultimately show ?thesis
            by (simp only: last list.case)
        next
          case (Cons c cs')
          have "walk e rest a = (takeWhile (empty_answer e) ?cs @ [c],
              case resolve e c of Inl ex \<Rightarrow> Inl (DNSResolutionError c ex) | Inr a \<Rightarrow> Inr a)"
            by (simp add: Cons.IH [OF abs, of a] Cons)
          then have "walk e ?n rr0 = (takeWhile (empty_answer e) (candidates ?n) @ [c],
              case resolve e c of Inl ex \<Rightarrow> Inl (DNSResolutionError c ex) | Inr a \<Rightarrow> Inr a)"
            by (simp add: w cs E)
          moreover have "dropWhile (empty_answer e) (candidates ?n) = c # cs'"
            by (simp add: cs E Cons)
          ultimately show ?thesis
            by (simp only: list.case)
        qed
      qed
    qed
  qed
qed

lemma walk_found:
  "walk e n rr0 = (qs, Inr a) \<Longrightarrow> truthy a \<Longrightarrow> \<not> truthy rr0 \<Longrightarrow>
     qs \<noteq> [] \<and> resolve e (last qs) = Inr a"
proof (induction e n rr0 arbitrary: qs rule: walk.induct)
  case (1 e n rr)
  from "1.prems"(1) show ?case
    by (subst (asm) walk.simps, simp split: if_splits sum.splits prod.splits)
      (use 1 in \<open>auto split: if_splits\<close>)
qed

lemma candidates_length: "c \<in> set (candidates n) \<Longrightarrow> 2 \<le> length c \<and> length c \<le> length n"
  by (auto simp: candidates_def)

lemma start_absolute:
  assumes "is_absolute domain"
  shows "start_name domain = Inr (if is_wild domain then tl domain else domain) \<and>
     is_absolute (if is_wild domain then tl domain else domain)"
proof (cases "is_wild domain")
  case True
  then obtain rest where d: "domain = ''*'' # rest"
    by (auto simp: is_wild_def split: list.splits)
  with assms have "rest \<noteq> []" and "last rest = []"
    by (auto simp: is_absolute_def split: if_splits)
  with d True show ?thesis
    by (simp add: start_name_def parent_def root_def is_absolute_def)
next
  case False
  with assms show ?thesis
    by (simp add: start_name_def)
qed

text \<open>
  C4. For an absolute domain name (which is what \<^verbatim>\<open>dns.name.from_text\<close> returns), the
  walk starts at the parent when the leading label is the wildcard and at the domain
  otherwise, and queries the candidates of the start name in order: it passes over each
  name with an empty answer and stops at the first other name. When that name's lookup
  raises, the result is DNSResolutionError for that name; when it has records, they are
  the result; when no candidate is left, the result is NoCAARecordsError. A wildcard
  domain itself and the root are never queried.
\<close>

theorem tree_walk_spec:
  assumes "is_absolute domain"
    and "start = (if is_wild domain then tl domain else domain)"
    and "cs = candidates start"
  shows "fst (find_rrset e domain) =
       takeWhile (empty_answer e) cs @ take 1 (dropWhile (empty_answer e) cs) \<and>
     (start \<noteq> root \<longrightarrow> hd (fst (find_rrset e domain)) = start) \<and>
     (dropWhile (empty_answer e) cs = [] \<longrightarrow>
        snd (find_rrset e domain) = Inl (NoCAARecordsError domain)) \<and>
     (\<forall>c rest ex. dropWhile (empty_answer e) cs = c # rest \<and> resolve e c = Inl ex \<longrightarrow>
        snd (find_rrset e domain) = Inl (DNSResolutionError c ex)) \<and>
     (\<forall>c rest a. dropWhile (empty_answer e) cs = c # rest \<and> resolve e c = Inr a \<longrightarrow>
        (\<exists>rr. a = Some rr \<and> rr \<noteq> [] \<and> snd (find_rrset e domain) = Inr rr)) \<and>
     (is_wild domain \<longrightarrow> domain \<notin> set (fst (find_rrset e domain))) \<and>
     root \<notin> set (fst (find_rrset e domain))"
proof -
  let ?E = "empty_answer e"
  from start_absolute [OF assms(1)] assms(2)
  have sn: "start_name domain = Inr start" and abs: "is_absolute start"
    by simp_all
  note w = walk_absolute [OF abs, of e None, folded assms(3)]
  have q: "fst (find_rrset e domain) = takeWhile ?E cs @ take 1 (dropWhile ?E cs)"
  proof (cases "dropWhile ?E cs")
    case Nil
    then have tw: "takeWhile ?E cs = cs"
      by (metis append_Nil2 takeWhile_dropWhile_id)
    show ?thesis
      by (simp add: find_rrset_def sn w Nil tw split: sum.splits option.splits)
  next
    case (Cons c rest)
    show ?thesis
      by (simp add: find_rrset_def sn w Cons split: sum.splits option.splits)
  qed
  have sub: "set (fst (find_rrset e domain)) \<subseteq> set cs"
    unfolding q by (auto dest: set_takeWhileD in_set_takeD set_dropWhileD)
  have len: "\<And>c. c \<in> set cs \<Longrightarrow> 2 \<le> length c \<and> length c \<le> length start"
    unfolding assms(3) by (rule candidates_length)
  have "cs \<noteq> [] \<and> hd cs = start" if "start \<noteq> root"
  proof -
    from abs that have "2 \<le> length start"
      by (cases start; cases "tl start") (auto simp: is_absolute_def root_def)
    then obtain k where "length start - 1 = Suc k"
      by (cases "length start - 1") auto
    then show ?thesis
      unfolding assms(3) candidates_def by (simp add: upt_conv_Cons del: upt_Suc)
  qed
  then have h: "start \<noteq> root \<longrightarrow> hd (fst (find_rrset e domain)) = start"
    unfolding q by (cases cs) auto
  have nil: "dropWhile ?E cs = [] \<longrightarrow> snd (find_rrset e domain) = Inl (NoCAARecordsError domain)"
  proof
    assume d: "dropWhile ?E cs = []"
    have "cs \<noteq> [] \<longrightarrow> \<not> truthy (projr (resolve e (last cs)))"
    proof
      assume "cs \<noteq> []"
      with d have "?E (last cs)"
        by (simp add: dropWhile_eq_Nil_conv)
      then show "\<not> truthy (projr (resolve e (last cs)))"
        by (auto simp: empty_answer_def split: sum.splits)
    qed
    then show "snd (find_rrset e domain) = Inl (NoCAARecordsError domain)"
      by (auto simp: find_rrset_def sn w d truthy_def split: option.splits)
  qed
  have cons: "snd (find_rrset e domain) =
      (case resolve e c of
         Inl ex \<Rightarrow> Inl (DNSResolutionError c ex)
       | Inr a \<Rightarrow> (case a of None \<Rightarrow> Inl (NoCAARecordsError domain)
                   | Some rr \<Rightarrow> if rr = [] then Inl (NoCAARecordsError domain) else Inr rr))"
    if "dropWhile ?E cs = c # rest" for c rest
    using that by (simp add: find_rrset_def sn w split: sum.splits option.splits)
  have ne: "\<not> ?E c" if "dropWhile ?E cs = c # rest" for c rest
    using that by (metis hd_dropWhile list.sel(1) list.distinct(1))
  have err: "\<forall>c rest ex. dropWhile ?E cs = c # rest \<and> resolve e c = Inl ex \<longrightarrow>
        snd (find_rrset e domain) = Inl (DNSResolutionError c ex)"
    using cons by simp
  have found: "\<forall>c rest a. dropWhile ?E cs = c # rest \<and> resolve e c = Inr a \<longrightarrow>
        (\<exists>rr. a = Some rr \<and> rr \<noteq> [] \<and> snd (find_rrset e domain) = Inr rr)"
  proof (intro allI impI)
    fix c rest a
    assume a: "dropWhile ?E cs = c # rest \<and> resolve e c = Inr a"
    with ne [of c rest] have "truthy a"
      by (simp add: empty_answer_def)
    then obtain rr where "a = Some rr" and "rr \<noteq> []"
      by (auto simp: truthy_def split: option.splits)
    with a cons [of c rest] show "\<exists>rr. a = Some rr \<and> rr \<noteq> [] \<and> snd (find_rrset e domain) = Inr rr"
      by simp
  qed
  have wild: "is_wild domain \<longrightarrow> domain \<notin> set (fst (find_rrset e domain))"
  proof
    assume "is_wild domain"
    with assms(2) have "length start < length domain"
      by (cases domain) (simp_all add: is_wild_def)
    show "domain \<notin> set (fst (find_rrset e domain))"
    proof
      assume "domain \<in> set (fst (find_rrset e domain))"
      with sub have "domain \<in> set cs" ..
      then have "length domain \<le> length start"
        using len by simp
      with \<open>length start < length domain\<close> show False
        by simp
    qed
  qed
  have nroot: "root \<notin> set (fst (find_rrset e domain))"
  proof
    assume "root \<in> set (fst (find_rrset e domain))"
    with sub have "root \<in> set cs" ..
    then have "2 \<le> length root"
      using len by simp
    then show False
      by (simp add: root_def)
  qed
  show ?thesis
    by (intro conjI) (rule q h nil err found wild nroot)+
qed

theorem tree_walk_spec_witness:
  "find_rrset example_env [''*'', ''example'', ''com'', []] =
     ([[''example'', ''com'', []]],
      Inr [caa ''issue'' ''ca1.example; priority=5'', caa ''issue'' ''ca2.example; priority=3'',
           caa ''issuewild'' ''ca3.example'']) \<and>
   [''*'', ''example'', ''com'', []] \<notin> set (fst (find_rrset example_env [''*'', ''example'', ''com'', []])) \<and>
   root \<notin> set (fst (find_rrset example_env [''*'', ''example'', ''com'', []]))"
proof -
  let ?d = "[''*'', ''example'', ''com'', []]"
  let ?cs = "[[''example'', ''com'', []], [''com'', []]]"
  let ?rr = "[caa ''issue'' ''ca1.example; priority=5'', caa ''issue'' ''ca2.example; priority=3'',
           caa ''issuewild'' ''ca3.example'']"
  have a: "is_absolute ?d" and w: "is_wild ?d"
    by (simp_all add: is_absolute_def is_wild_def)
  have s: "[''example'', ''com'', []] = (if is_wild ?d then tl ?d else ?d)"
    by (simp add: is_wild_def)
  have c: "?cs = candidates [''example'', ''com'', []]"
    by code_simp
  have d: "dropWhile (empty_answer example_env) ?cs = ?cs"
    and t: "takeWhile (empty_answer example_env) ?cs = []"
    and r: "resolve example_env [''example'', ''com'', []] = Inr (Some ?rr)"
    by code_simp+
  from tree_walk_spec [OF a s c, of example_env] w d t r
  have "fst (find_rrset example_env ?d) = [[''example'', ''com'', []]]" and "snd (find_rrset example_env ?d) = Inr ?rr"
    and "?d \<notin> set (fst (find_rrset example_env ?d))" and "root \<notin> set (fst (find_rrset example_env ?d))"
    by (simp_all add: root_def)
  then show ?thesis
    by (simp add: prod_eq_iff)
qed

text \<open>
  C3, as the code has it. The record set handed to the selector is
  \<open>processing_order\<close> applied to the record set the resolver returned for the last name
  queried; the module reorders nothing else, so the selector sees the resolver's own
  order when that method returns the records unchanged.
\<close>

theorem selector_input:
  assumes "from_text e d = Inr domain"
    and "find_rrset e domain = (qs, Inr rr)"
  shows "qs \<noteq> [] \<and> resolve e (last qs) = Inr (Some rr) \<and>
     process_domain e d =
       (qs, map_sum id (Pair domain) (select_issuers e domain (processing_order e rr))) \<and>
     (processing_order e rr = rr \<longrightarrow>
        process_domain e d = (qs, map_sum id (Pair domain) (select_issuers e domain rr)))"
proof -
  from assms(2) obtain n where "walk e n None = (qs, Inr (Some rr))" and "rr \<noteq> []"
    by (auto simp: find_rrset_def split: sum.splits prod.splits option.splits if_splits)
  from walk_found [OF this(1)] this(2)
  have "qs \<noteq> [] \<and> resolve e (last qs) = Inr (Some rr)"
    by (simp add: truthy_def)
  moreover have "process_domain e d =
      (qs, map_sum id (Pair domain) (select_issuers e domain (processing_order e rr)))"
    using assms by (simp add: process_domain_def split: sum.splits)
  ultimately show ?thesis
    by simp
qed

theorem selector_input_witness:
  "process_domain example_env ''example.org'' =
     ([[''example'', ''org'', []]],
      Inr ([''example'', ''org'', []],
           [\<lparr>issuer = ''ca1.example'', priority = 1\<rparr>, \<lparr>issuer = ''ca2.example'', priority = 3\<rparr>])) \<and>
   resolve example_env [''example'', ''org'', []] =
     Inr (Some [caa ''issue'' ''ca1.example; priority=1'', caa ''issue'' ''ca2.example; priority=3''])"
proof -
  let ?d = "[''example'', ''org'', []]"
  let ?rr = "[caa ''issue'' ''ca1.example; priority=1'', caa ''issue'' ''ca2.example; priority=3'']"
  have a: "from_text example_env ''example.org'' = Inr ?d"
    by code_simp
  have b: "find_rrset example_env ?d = ([?d], Inr ?rr)"
    by code_simp
  have c: "select_issuers example_env ?d (processing_order example_env ?rr) =
      Inr [\<lparr>issuer = ''ca1.example'', priority = 1\<rparr>, \<lparr>issuer = ''ca2.example'', priority = 3\<rparr>]"
    by code_simp
  from selector_input [OF a b] c show ?thesis
    by simp
qed

text \<open>The resolver returns \<^verbatim>\<open>ca1.example\<close> before \<^verbatim>\<open>ca2.example\<close>, which is the order
  the selector gives on that record set; with a \<open>processing_order\<close> that reverses, the
  domain's issuers come out in the other order.\<close>

theorem processing_order_counterexample:
  "snd (find_rrset example_env_reversed [''example'', ''org'', []]) =
     Inr [caa ''issue'' ''ca1.example; priority=1'', caa ''issue'' ''ca2.example; priority=3''] \<and>
   select_issuers example_env_reversed [''example'', ''org'', []]
     [caa ''issue'' ''ca1.example; priority=1'', caa ''issue'' ''ca2.example; priority=3''] =
     Inr [\<lparr>issuer = ''ca1.example'', priority = 1\<rparr>, \<lparr>issuer = ''ca2.example'', priority = 3\<rparr>] \<and>
   snd (process_domain example_env_reversed ''example.org'') =
     Inr ([''example'', ''org'', []],
          [\<lparr>issuer = ''ca2.example'', priority = 3\<rparr>, \<lparr>issuer = ''ca1.example'', priority = 1\<rparr>])"
  by code_simp

subsection \<open>The issuer selector\<close>

lemma parse_all_total: "parse_all (map caa_value rs) = Inr (map caa_issue rs)"
  by (induction rs) (simp_all add: caa_issue_def parse_total)

lemma relevant_set_spec:
  "relevant_set domain rr =
     (if chosen_records domain rr = [] then Inl (NoCAARecordsError domain)
      else Inr (map caa_issue (chosen_records domain rr)))"
  by (simp add: relevant_set_def parse_all_total chosen_records_def)

lemma discovery_filter:
  "get_property c ''discovery'' (Some ''true'') \<noteq> Some ''true'' \<longleftrightarrow> \<not> discovery_allowed c"
  by (simp add: get_property_def discovery_allowed_def split: option.splits)

lemma collect_issuers_spec:
  "collect_issuers e domain cs =
     (case find (\<lambda>c. isl (resolve_priority e domain c)) (filter discovery_allowed cs) of
        Some c \<Rightarrow> Inl (projl (resolve_priority e domain c))
      | None \<Rightarrow> Inr (map (make_issuer e domain) (filter discovery_allowed cs)))"
proof (induction cs)
  case Nil
  show ?case by simp
next
  case (Cons c cs)
  show ?case
  proof (cases "discovery_allowed c")
    case False
    with Cons show ?thesis
      by (simp add: discovery_filter cong: option.case_cong)
  next
    case True
    with Cons show ?thesis
      by (cases "resolve_priority e domain c")
        (simp_all add: discovery_filter make_issuer_def split: option.splits cong: option.case_cong)
  qed
qed

lemma select_issuers_eq:
  "select_issuers e domain rr =
     (if chosen_records domain rr = [] then Inl (NoCAARecordsError domain)
      else (case find (\<lambda>c. isl (resolve_priority e domain c))
                   (filter discovery_allowed (map caa_issue (chosen_records domain rr))) of
              Some c \<Rightarrow> Inl (projl (resolve_priority e domain c))
            | None \<Rightarrow>
                Inr (map (make_issuer e domain)
                       (filter discovery_allowed (map caa_issue (chosen_records domain rr))))))"
  by (simp add: select_issuers_def relevant_set_spec collect_issuers_spec)

text \<open>
  C6. The selector takes the records tagged \<^verbatim>\<open>issuewild\<close> for a wildcard domain that has
  any, and the records tagged \<^verbatim>\<open>issue\<close> otherwise; when that sub-list is empty it raises
  NoCAARecordsError. From the sub-list it drops every record whose \<^verbatim>\<open>discovery\<close> property
  is present and is not the literal \<^verbatim>\<open>true\<close>; it then emits one Issuer for each record
  left, in the order of the records (or raises the error of the first of them whose
  priority is invalid).
\<close>

theorem select_issuers_spec:
  "select_issuers e domain rr =
     (if chosen_records domain rr = [] then Inl (NoCAARecordsError domain)
      else (case find (\<lambda>c. isl (resolve_priority e domain c))
                   (filter discovery_allowed (map caa_issue (chosen_records domain rr))) of
              Some c \<Rightarrow> Inl (projl (resolve_priority e domain c))
            | None \<Rightarrow>
                Inr (map (make_issuer e domain)
                       (filter discovery_allowed (map caa_issue (chosen_records domain rr))))))"
  by (rule select_issuers_eq)

theorem select_issuers_spec_witness:
  "select_issuers example_env [''*'', ''example'', ''com'', []]
     [caa ''issue'' ''ca1.example; priority=5'', caa ''issue'' ''ca2.example; priority=3'',
      caa ''issuewild'' ''ca3.example''] =
     Inr [\<lparr>issuer = ''ca3.example'', priority = 0\<rparr>] \<and>
   select_issuers example_env [''quiet'', ''example'', []]
     [caa ''issue'' ''ca0.example; discovery=true; priority=2'',
      caa ''issue'' ''ca1.example; discovery=false'', caa ''issue'' ''ca2.example; discovery'',
      caa ''issue'' ''ca3.example'', caa ''tbs'' ''ca4.example''] =
     Inr [\<lparr>issuer = ''ca0.example'', priority = 2\<rparr>, \<lparr>issuer = ''ca3.example'', priority = 0\<rparr>] \<and>
   select_issuers example_env [''example'', ''com'', []] [caa ''issuewild'' ''ca3.example''] =
     Inl (NoCAARecordsError [''example'', ''com'', []])"
proof -
  let ?e = example_env
  let ?find = "\<lambda>d cs. find (\<lambda>c. isl (resolve_priority ?e d c)) (filter discovery_allowed (map caa_issue cs))"
  let ?emit = "\<lambda>d cs. map (make_issuer ?e d) (filter discovery_allowed (map caa_issue cs))"
  let ?w = "[''*'', ''example'', ''com'', []]" and ?q = "[''quiet'', ''example'', []]"
  let ?r1 = "[caa ''issue'' ''ca1.example; priority=5'', caa ''issue'' ''ca2.example; priority=3'',
      caa ''issuewild'' ''ca3.example'']"
  let ?r2 = "[caa ''issue'' ''ca0.example; discovery=true; priority=2'',
      caa ''issue'' ''ca1.example; discovery=false'', caa ''issue'' ''ca2.example; discovery'',
      caa ''issue'' ''ca3.example'', caa ''tbs'' ''ca4.example'']"
  have "chosen_records ?w ?r1 \<noteq> []" and "?find ?w (chosen_records ?w ?r1) = None"
    and "?emit ?w (chosen_records ?w ?r1) = [\<lparr>issuer = ''ca3.example'', priority = 0\<rparr>]"
    and "chosen_records ?q ?r2 \<noteq> []" and "?find ?q (chosen_records ?q ?r2) = None"
    and "?emit ?q (chosen_records ?q ?r2) =
      [\<lparr>issuer = ''ca0.example'', priority = 2\<rparr>, \<lparr>issuer = ''ca3.example'', priority = 0\<rparr>]"
    and "chosen_records [''example'', ''com'', []] [caa ''issuewild'' ''ca3.example''] = []"
    by code_simp+
  then show ?thesis
    by (simp add: select_issuers_spec)
qed

subsection \<open>A domain that contributes no issuer\<close>

lemma process_domains_spec:
  "process_domains e ds =
     (case find (\<lambda>d. isl (snd (process_domain e d))) ds of
        None \<Rightarrow> (concat (map (\<lambda>d. fst (process_domain e d)) ds),
                 Inr (map (\<lambda>d. projr (snd (process_domain e d))) ds))
      | Some d \<Rightarrow>
          (concat (map (\<lambda>d. fst (process_domain e d))
                     (takeWhile (\<lambda>d. \<not> isl (snd (process_domain e d))) ds @ [d])),
           Inl (projl (snd (process_domain e d)))))"
proof (induction ds)
  case Nil
  show ?case by simp
next
  case (Cons d ds)
  obtain qs r where pd: "process_domain e d = (qs, r)"
    by (cases "process_domain e d")
  show ?case
  proof (cases r)
    case (Inl err)
    with pd show ?thesis by simp
  next
    case (Inr entry)
    with pd Cons show ?thesis
      by (simp split: option.splits prod.splits sum.splits)
  qed
qed

lemma empty_entry_ranks:
  assumes "x \<in> set entries" and "snd x = []"
  shows "rank_issuers e (intersect_domains None entries) = Inl NoCommonIssuersError"
proof (cases "intersect_domains None entries")
  case None
  then show ?thesis by (simp add: rank_issuers_def)
next
  case (Some s)
  from intersect_domains_None [OF Some] assms
  have "Issuer.issuer ` set s \<subseteq> {}"
    by auto
  then have "s = []"
    by simp
  with Some show ?thesis
    by (simp add: rank_issuers_def)
qed

text \<open>
  C10, as the code has it. When the sub-list chosen for a domain is not empty and the
  discovery filter drops all of it, that domain raises nothing and contributes the empty
  list. The domains are processed in order until one raises. When one does, the call
  fails with that domain's error (NoCAARecordsError among the possible ones) and no domain
  after it is walked: the names queried are those of the walks up to and including that
  domain's. When none does, the names of the walks of all domains are queried and the call
  fails with NoCommonIssuersError.
\<close>

theorem empty_contribution_spec:
  assumes "d \<in> set ds"
    and "from_text e d = Inr domain"
    and "find_rrset e domain = (qs, Inr rr)"
    and "chosen_records domain (processing_order e rr) \<noteq> []"
    and "filter discovery_allowed (map caa_issue (chosen_records domain (processing_order e rr))) = []"
  shows "process_domain e d = (qs, Inr (domain, [])) \<and>
     snd (auto_discover_server e ds) =
       (case find (\<lambda>d'. isl (snd (process_domain e d'))) ds of
          None \<Rightarrow> Inl NoCommonIssuersError
        | Some d' \<Rightarrow> Inl (projl (snd (process_domain e d')))) \<and>
     (find (\<lambda>d'. isl (snd (process_domain e d'))) ds = None \<longrightarrow>
        fst (auto_discover_server e ds) = concat (map (\<lambda>d'. fst (process_domain e d')) ds)) \<and>
     (\<forall>d'. find (\<lambda>d'. isl (snd (process_domain e d'))) ds = Some d' \<longrightarrow>
        fst (auto_discover_server e ds) =
          concat (map (\<lambda>d'. fst (process_domain e d'))
                    (takeWhile (\<lambda>d'. \<not> isl (snd (process_domain e d'))) ds @ [d'])))"
proof -
  have sel: "select_issuers e domain (processing_order e rr) = Inr []"
    using assms(4,5) by (simp add: select_issuers_eq)
  with assms(2,3) have pd: "process_domain e d = (qs, Inr (domain, []))"
    by (simp add: process_domain_def)
  show ?thesis
  proof (cases "find (\<lambda>d'. isl (snd (process_domain e d'))) ds")
    case None
    let ?entries = "map (\<lambda>d. projr (snd (process_domain e d))) ds"
    from assms(1) pd have "(domain, []) \<in> set ?entries"
      by force
    then have "rank_issuers e (intersect_domains None ?entries) = Inl NoCommonIssuersError"
      by (rule empty_entry_ranks) simp
    with None pd show ?thesis
      by (simp add: auto_discover_server_def process_domains_spec)
  next
    case (Some d')
    with pd show ?thesis
      by (simp add: auto_discover_server_def process_domains_spec)
  qed
qed

theorem empty_contribution_spec_witness:
  "process_domain example_env ''quiet.example'' =
     ([[''quiet'', ''example'', []]], Inr ([''quiet'', ''example'', []], [])) \<and>
   auto_discover_server example_env [''quiet.example'', ''example.org''] =
     ([[''quiet'', ''example'', []], [''example'', ''org'', []]], Inl NoCommonIssuersError) \<and>
   snd (auto_discover_server example_env [''quiet.example'', ''a.fail.net'']) =
     Inl (DNSResolutionError [''fail'', ''net'', []] (DNSException ''timeout''))"
proof -
  let ?e = example_env and ?d = "[''quiet'', ''example'', []]"
  let ?rr = "[caa ''issue'' ''ca1.example; discovery=false'', caa ''issue'' ''ca2.example; discovery'']"
  let ?ds = "[''quiet.example'', ''example.org'']" and ?ds' = "[''quiet.example'', ''a.fail.net'']"
  have a: "from_text ?e ''quiet.example'' = Inr ?d"
    and b: "find_rrset ?e ?d = ([?d], Inr ?rr)"
    and c: "chosen_records ?d (processing_order ?e ?rr) \<noteq> []"
    and d: "filter discovery_allowed (map caa_issue (chosen_records ?d (processing_order ?e ?rr))) = []"
    by code_simp+
  have f: "find (\<lambda>d'. isl (snd (process_domain ?e d'))) ?ds = None"
    and g: "concat (map (\<lambda>d'. fst (process_domain ?e d')) ?ds) = [?d, [''example'', ''org'', []]]"
    and f': "find (\<lambda>d'. isl (snd (process_domain ?e d'))) ?ds' = Some ''a.fail.net''"
    and g': "snd (process_domain ?e ''a.fail.net'') =
      Inl (DNSResolutionError [''fail'', ''net'', []] (DNSException ''timeout''))"
    by code_simp+
  have "''quiet.example'' \<in> set ?ds" and "''quiet.example'' \<in> set ?ds'"
    by simp_all
  from empty_contribution_spec [OF this(1) a b c d] empty_contribution_spec [OF this(2) a b c d] f g f' g'
  show ?thesis
    by (simp add: prod_eq_iff)
qed

text \<open>The domain \<^verbatim>\<open>quiet.example\<close> contributes the empty list; the next domain,
  \<^verbatim>\<open>nothing.test\<close>, has no CAA record up to the root. The call fails with
  NoCAARecordsError for it (lines 83-84), not with NoCommonIssuersError, and the third
  domain, \<^verbatim>\<open>example.org\<close>, is never queried.\<close>

theorem fail_fast_counterexample:
  "process_domain example_env ''quiet.example'' =
     ([[''quiet'', ''example'', []]], Inr ([''quiet'', ''example'', []], [])) \<and>
   auto_discover_server example_env [''quiet.example'', ''nothing.test'', ''example.org''] =
     ([[''quiet'', ''example'', []], [''nothing'', ''test'', []], [''test'', []]],
      Inl (NoCAARecordsError [''nothing'', ''test'', []])) \<and>
   [''example'', ''org'', []] \<notin>
     set (fst (auto_discover_server example_env [''quiet.example'', ''nothing.test'', ''example.org'']))"
  by code_simp

end
